theory Spec2Isabelle
  imports Main "HOL-Library.Multiset"
begin

section \<open>JavaScript values\<close>

text \<open>
  A JavaScript string is a sequence of UTF-16 code units. Identifiers, group names and
  status flags of \<^verbatim>\<open>src/App.js\<close> are strings that are only built and compared
  with \<^verbatim>\<open>===\<close>, so a list of code units is all the model needs. \<open>js\<close> embeds an
  ASCII literal of the source.
\<close>

type_synonym js_string = "nat list"

definition js :: "string \<Rightarrow> js_string" where
  "js s = map of_char s"

text \<open>\<^verbatim>\<open>String.fromCharCode(n)\<close>: one code unit, the argument taken modulo \<open>2^16\<close>.\<close>

definition fromCharCode :: "nat \<Rightarrow> js_string" where
  "fromCharCode n = [n mod 65536]"

text \<open>
  Set scores are written by \<^verbatim>\<open>handleSaveScore\<close> as \<^verbatim>\<open>parseInt(..., 10) || 0\<close>, an
  integer, and are \<^verbatim>\<open>null\<close> in a fixture that was never scored. In arithmetic and in
  \<^verbatim>\<open>>\<close> JavaScript converts \<^verbatim>\<open>null\<close> to \<open>0\<close>. Numbers are modelled as \<open>int\<close>
  (exact for doubles below \<open>2^53\<close>).
\<close>

definition toNumber :: "int option \<Rightarrow> int" where
  "toNumber v = (case v of None \<Rightarrow> 0 | Some n \<Rightarrow> n)"

section \<open>Data model\<close>

record participant =
  p_id :: js_string
  p_name :: js_string

record group =
  name :: js_string
  participantIds :: "js_string list"

record match =
  stage :: js_string
  groupName :: js_string
  homeParticipantId :: js_string
  awayParticipantId :: js_string
  homeParticipantName :: js_string
  awayParticipantName :: js_string
  homeSets :: "int option"
  awaySets :: "int option"
  status :: js_string

record stats =
  participantId :: js_string
  played :: int
  wins :: int
  losses :: int
  setsFor :: int
  setsAgainst :: int
  setDifference :: int
  points :: int

text \<open>An entry of \<^verbatim>\<open>championship.standings\<close>: \<^verbatim>\<open>{ groupName, table }\<close>.\<close>

record group_standings =
  standingsGroupName :: js_string
  table :: "stats list"

text \<open>
  \<^verbatim>\<open>championship.config.groupStage\<close>, and the fields of a championship document that
  the three handlers read or write.
\<close>

record group_stage =
  generated :: bool
  numGroups :: int
  numAdvancing :: int
  matchFormat :: js_string

record championship =
  groups :: "group list"
  standings :: "group_standings list"
  groupStage :: group_stage

section \<open>Standings: \<^verbatim>\<open>handleRecalculateStandings\<close>\<close>

text \<open>
  \<^verbatim>\<open>standings.find(s => ...)\<close> returns a reference to the first matching row, which the
  body then mutates in place. The reference is modelled as the row's index.
\<close>

fun findIndex :: "('a \<Rightarrow> bool) \<Rightarrow> 'a list \<Rightarrow> nat option" where
  "findIndex P [] = None"
| "findIndex P (x # xs) = (if P x then Some 0 else map_option Suc (findIndex P xs))"

text \<open>The block under \<^verbatim>\<open>if (homeParticipantStats)\<close>.\<close>

definition creditHome :: "match \<Rightarrow> stats \<Rightarrow> stats" where
  "creditHome m s =
     (let s1 = s\<lparr>played := played s + 1,
                 setsFor := setsFor s + toNumber (homeSets m),
                 setsAgainst := setsAgainst s + toNumber (awaySets m)\<rparr>
      in if toNumber (homeSets m) > toNumber (awaySets m)
         then s1\<lparr>wins := wins s1 + 1, points := points s1 + 2\<rparr>
         else s1\<lparr>losses := losses s1 + 1, points := points s1 + 1\<rparr>)"

text \<open>The block under \<^verbatim>\<open>if (awayParticipantStats)\<close>.\<close>

definition creditAway :: "match \<Rightarrow> stats \<Rightarrow> stats" where
  "creditAway m s =
     (let s1 = s\<lparr>played := played s + 1,
                 setsFor := setsFor s + toNumber (awaySets m),
                 setsAgainst := setsAgainst s + toNumber (homeSets m)\<rparr>
      in if toNumber (awaySets m) > toNumber (homeSets m)
         then s1\<lparr>wins := wins s1 + 1, points := points s1 + 2\<rparr>
         else s1\<lparr>losses := losses s1 + 1, points := points s1 + 1\<rparr>)"

text \<open>
  The body of \<^verbatim>\<open>groupMatches.forEach\<close>. Both rows are looked up before either is
  changed; when both ids name the same row, the two blocks update it one after the other.
\<close>

definition applyMatch :: "match \<Rightarrow> stats list \<Rightarrow> stats list" where
  "applyMatch m st =
     (let h = findIndex (\<lambda>s. participantId s = homeParticipantId m) st;
          a = findIndex (\<lambda>s. participantId s = awayParticipantId m) st;
          st1 = (case h of None \<Rightarrow> st | Some i \<Rightarrow> st[i := creditHome m (st ! i)]);
          st2 = (case a of None \<Rightarrow> st1 | Some j \<Rightarrow> st1[j := creditAway m (st1 ! j)])
      in st2)"

definition initialStandings :: "group \<Rightarrow> stats list" where
  "initialStandings g =
     map (\<lambda>p. \<lparr>participantId = p, played = 0, wins = 0, losses = 0,
               setsFor = 0, setsAgainst = 0, setDifference = 0, points = 0\<rparr>)
         (participantIds g)"

definition groupMatches :: "match list \<Rightarrow> js_string \<Rightarrow> match list" where
  "groupMatches updatedMatches gn =
     filter (\<lambda>m. groupName m = gn \<and> status m = js ''completed'') updatedMatches"

text \<open>The rows after the \<^verbatim>\<open>forEach\<close> over the group's completed matches.\<close>

definition foldedStandings :: "group \<Rightarrow> match list \<Rightarrow> js_string \<Rightarrow> stats list" where
  "foldedStandings g updatedMatches gn =
     fold applyMatch (groupMatches updatedMatches gn) (initialStandings g)"

text \<open>\<^verbatim>\<open>standings.forEach(s => { s.setDifference = s.setsFor - s.setsAgainst; })\<close>\<close>

definition withSetDifference :: "stats list \<Rightarrow> stats list" where
  "withSetDifference st = map (\<lambda>s. s\<lparr>setDifference := setsFor s - setsAgainst s\<rparr>) st"

text \<open>The comparison function handed to \<^verbatim>\<open>standings.sort\<close>.\<close>

definition compareStandings :: "stats \<Rightarrow> stats \<Rightarrow> int" where
  "compareStandings a b =
     (if points a \<noteq> points b then points b - points a
      else if setDifference a \<noteq> setDifference b then setDifference b - setDifference a
      else if setsFor a \<noteq> setsFor b then setsFor b - setsFor a
      else 0)"

text \<open>
  \<^verbatim>\<open>Array.prototype.sort(cmp)\<close>: ECMAScript (2019 and later) requires the sort to be
  stable, and \<open>a\<close> is placed before \<open>b\<close> when \<open>cmp a b < 0\<close>. The engine's algorithm is
  not part of the repository; the model is the stable insertion sort, which for a
  consistent comparison function yields the one order the standard allows.
\<close>

fun insertBy :: "('a \<Rightarrow> 'a \<Rightarrow> int) \<Rightarrow> 'a \<Rightarrow> 'a list \<Rightarrow> 'a list" where
  "insertBy cmp x [] = [x]"
| "insertBy cmp x (y # ys) = (if cmp x y \<le> 0 then x # y # ys else y # insertBy cmp x ys)"

definition sortBy :: "('a \<Rightarrow> 'a \<Rightarrow> int) \<Rightarrow> 'a list \<Rightarrow> 'a list" where
  "sortBy cmp xs = foldr (insertBy cmp) xs []"

text \<open>The table of a group: fold, set difference, sort.\<close>

definition computeTable :: "group \<Rightarrow> match list \<Rightarrow> js_string \<Rightarrow> stats list" where
  "computeTable g updatedMatches gn =
     sortBy compareStandings (withSetDifference (foldedStandings g updatedMatches gn))"


section \<open>Groups: \<^verbatim>\<open>handleGenerateGroups\<close>\<close>

text \<open>
  The handlers report a refused request with \<^verbatim>\<open>alert(...)\<close> and return before any
  write. The two refusals are named after the error kinds of the specification:
  \<open>InvalidConfiguration\<close> is the alert of \<^verbatim>\<open>handleGenerateGroups\<close>,
  \<open>InvalidParticipants\<close> the alert of \<^verbatim>\<open>handleSaveManualMatch\<close>.
\<close>

datatype error = InvalidConfiguration | InvalidParticipants

text \<open>\<^verbatim>\<open>Array.from({ length: numGroups }, (_, i) => ({ name: ..., participantIds: [] }))\<close>\<close>

definition emptyGroups :: "nat \<Rightarrow> group list" where
  "emptyGroups n =
     map (\<lambda>i. \<lparr>name = js ''Grupo '' @ fromCharCode (65 + i), participantIds = []\<rparr>) [0..<n]"

text \<open>
  The body of \<^verbatim>\<open>shuffledParticipants.forEach((p, index) => ...)\<close>: push the id onto
  the group at \<open>index mod numGroups\<close>. The guard of the handler makes \<open>numGroups\<close>
  positive, so the index is in range.
\<close>

definition pushParticipant :: "nat \<Rightarrow> nat \<times> participant \<Rightarrow> group list \<Rightarrow> group list" where
  "pushParticipant n ip gs =
     (let k = fst ip mod n
      in gs[k := (gs ! k)\<lparr>participantIds := participantIds (gs ! k) @ [p_id (snd ip)]\<rparr>])"

definition distribute :: "nat \<Rightarrow> participant list \<Rightarrow> group list" where
  "distribute n shuffledParticipants =
     fold (pushParticipant n) (enumerate 0 shuffledParticipants) (emptyGroups n)"

definition zeroTable :: "group \<Rightarrow> group_standings" where
  "zeroTable g =
     \<lparr>standingsGroupName = name g,
      table = map (\<lambda>p. \<lparr>participantId = p, played = 0, wins = 0, losses = 0,
                        setsFor = 0, setsAgainst = 0, setDifference = 0, points = 0\<rparr>)
                  (participantIds g)\<rparr>"

text \<open>
  The comparison function \<^verbatim>\<open>() => 0.5 - Math.random()\<close>. A double in \<open>[0, 1)\<close> is a
  multiple of a power of two, so a call of \<^verbatim>\<open>Math.random()\<close> is modelled as a draw
  \<open>d < 2 ^ B\<close> standing for \<open>d / 2 ^ B\<close>, every draw equally likely; the result is
  given scaled by \<open>2 ^ (B + 1)\<close>, which keeps its sign.
\<close>

definition compareRandom :: "nat \<Rightarrow> nat \<Rightarrow> int" where
  "compareRandom B d = 2 ^ B - 2 * int d"

text \<open>
  \<^verbatim>\<open>[...participants].sort(() => 0.5 - Math.random())\<close>. The comparison function
  ignores its arguments, so what \<^verbatim>\<open>Array.prototype.sort\<close> returns is a function of the
  array and of the results of its successive calls. The engine's algorithm is not part
  of the repository: \<open>engineSort\<close> is a parameter, taking the results in call order.
\<close>

definition shuffledParticipants ::
  "(int list \<Rightarrow> participant list \<Rightarrow> participant list) \<Rightarrow> nat \<Rightarrow> nat list
     \<Rightarrow> participant list \<Rightarrow> participant list" where
  "shuffledParticipants engineSort B draws participants =
     engineSort (map (compareRandom B) draws) participants"

text \<open>
  \<^verbatim>\<open>handleGenerateGroups\<close>. \<open>shuffle\<close> stands for the shuffle of one call,
  \<open>shuffledParticipants engineSort B draws\<close>: the order it returns depends on the
  random source and on the engine's sorting algorithm, so it is an input of the
  model. The result is the alert raised, if any, and the championship document after
  the call.
\<close>

definition handleGenerateGroups ::
  "(participant list \<Rightarrow> participant list) \<Rightarrow> participant list \<Rightarrow> championship
     \<Rightarrow> error option \<times> championship" where
  "handleGenerateGroups shuffle participants championship =
     (if int (length participants) < 2 \<or> numGroups (groupStage championship) < 1
      then (Some InvalidConfiguration, championship)
      else
        let shuffledParticipants = shuffle participants;
            n = nat (numGroups (groupStage championship));
            newGroups = distribute n shuffledParticipants;
            newStandings = map zeroTable newGroups
        in (None, championship\<lparr>groups := newGroups, standings := newStandings,
                    groupStage := (groupStage championship)\<lparr>generated := True\<rparr>\<rparr>))"

section \<open>Fixtures: \<^verbatim>\<open>handleGenerateMatches\<close> and \<^verbatim>\<open>handleSaveManualMatch\<close>\<close>

text \<open>\<^verbatim>\<open>participantMap.get(id)?.name || '?'\<close>\<close>

definition displayName :: "(js_string \<rightharpoonup> participant) \<Rightarrow> js_string \<Rightarrow> js_string" where
  "displayName participantMap i =
     (case participantMap i of
        None \<Rightarrow> js ''?''
      | Some p \<Rightarrow> if p_name p = [] then js ''?'' else p_name p)"

definition matchBase :: "(js_string \<rightharpoonup> participant) \<Rightarrow> group \<Rightarrow> js_string \<Rightarrow> js_string \<Rightarrow> match" where
  "matchBase participantMap g homeId awayId =
     \<lparr>stage = js ''group'', groupName = name g,
      homeParticipantId = homeId, awayParticipantId = awayId,
      homeParticipantName = displayName participantMap homeId,
      awayParticipantName = displayName participantMap awayId,
      homeSets = None, awaySets = None, status = js ''pending''\<rparr>"

text \<open>
  The body of the inner loop, for indices \<open>i < j\<close> within the group: the documents it
  adds to the write batch, in order.
\<close>

definition pairMatches ::
  "(js_string \<rightharpoonup> participant) \<Rightarrow> js_string \<Rightarrow> group \<Rightarrow> nat \<Rightarrow> nat \<Rightarrow> match list" where
  "pairMatches participantMap fmt g i j =
     (let homeId = participantIds g ! i;
          awayId = participantIds g ! j;
          base = matchBase participantMap g homeId awayId
      in base #
         (if fmt = js ''home_and_away''
          then [base\<lparr>homeParticipantId := awayId, awayParticipantId := homeId,
                     homeParticipantName := displayName participantMap awayId,
                     awayParticipantName := displayName participantMap homeId\<rparr>]
          else []))"

text \<open>
  \<^verbatim>\<open>for (i = 0; i < n; i++) for (j = i + 1; j < n; j++)\<close> with
  \<open>n = group.participantIds.length\<close>.
\<close>

definition groupFixtures ::
  "(js_string \<rightharpoonup> participant) \<Rightarrow> js_string \<Rightarrow> group \<Rightarrow> match list" where
  "groupFixtures participantMap fmt g =
     (let n = length (participantIds g)
      in concat (map (\<lambda>i. concat (map (\<lambda>j. pairMatches participantMap fmt g i j) [i + 1..<n]))
                     [0..<n]))"

text \<open>\<^verbatim>\<open>handleGenerateMatches\<close>: the documents of the committed batch.\<close>

definition handleGenerateMatches :: "(js_string \<rightharpoonup> participant) \<Rightarrow> championship \<Rightarrow> match list" where
  "handleGenerateMatches participantMap championship =
     concat (map (groupFixtures participantMap (matchFormat (groupStage championship)))
                 (groups championship))"

text \<open>
  \<^verbatim>\<open>handleSaveManualMatch\<close>, on the two ids of \<^verbatim>\<open>manualMatchData\<close> and the matches
  collection. \<^verbatim>\<open>!homeParticipantId\<close> holds of the empty string, the value of the
  unselected option. The result is the alert raised, if any, and the collection after
  the call. The component is rendered only for a signed-in user, so the \<^verbatim>\<open>userId\<close>
  guard of \<^verbatim>\<open>addMatch\<close> does not return early and the document is added.
\<close>

definition handleSaveManualMatch ::
  "(js_string \<rightharpoonup> participant) \<Rightarrow> js_string \<Rightarrow> js_string \<Rightarrow> match list
     \<Rightarrow> error option \<times> match list" where
  "handleSaveManualMatch participantMap homeId awayId matches =
     (if homeId = [] \<or> awayId = [] \<or> homeId = awayId
      then (Some InvalidParticipants, matches)
      else (None, matches @
              [\<lparr>stage = js ''group'', groupName = js ''Avulso'',
                homeParticipantId = homeId, awayParticipantId = awayId,
                homeParticipantName = displayName participantMap homeId,
                awayParticipantName = displayName participantMap awayId,
                homeSets = None, awaySets = None, status = js ''pending''\<rparr>]))"

section \<open>Reference definitions\<close>

text \<open>
  What the specification says a row holds, written without the fold: the counters of
  participant \<open>p\<close> over a list of fixtures, home appearances and away appearances
  counted apart. A side wins a fixture when its sets exceed the other side's; every
  other outcome, equal sets included, is a loss.
\<close>

definition homeWon :: "match \<Rightarrow> bool" where
  "homeWon m \<longleftrightarrow> toNumber (homeSets m) > toNumber (awaySets m)"

definition awayWon :: "match \<Rightarrow> bool" where
  "awayWon m \<longleftrightarrow> toNumber (awaySets m) > toNumber (homeSets m)"

definition rowOf :: "match list \<Rightarrow> js_string \<Rightarrow> stats" where
  "rowOf ms p =
     (let H = filter (\<lambda>m. homeParticipantId m = p) ms;
          A = filter (\<lambda>m. awayParticipantId m = p) ms;
          w = int (length (filter homeWon H)) + int (length (filter awayWon A));
          l = int (length (filter (\<lambda>m. \<not> homeWon m) H))
              + int (length (filter (\<lambda>m. \<not> awayWon m) A));
          sf = sum_list (map (\<lambda>m. toNumber (homeSets m)) H)
               + sum_list (map (\<lambda>m. toNumber (awaySets m)) A);
          sa = sum_list (map (\<lambda>m. toNumber (awaySets m)) H)
               + sum_list (map (\<lambda>m. toNumber (homeSets m)) A)
      in \<lparr>participantId = p, played = int (length H) + int (length A),
          wins = w, losses = l, setsFor = sf, setsAgainst = sa,
          setDifference = sf - sa, points = 2 * w + l\<rparr>)"

text \<open>The ranking of the specification: points, then set difference, then sets won.\<close>

definition rankKey :: "stats \<Rightarrow> int \<times> int \<times> int" where
  "rankKey s = (points s, setDifference s, setsFor s)"

definition rankedBefore :: "stats \<Rightarrow> stats \<Rightarrow> bool" where
  "rankedBefore a b \<longleftrightarrow>
     points a > points b
     \<or> (points a = points b
        \<and> (setDifference a > setDifference b
           \<or> (setDifference a = setDifference b \<and> setsFor a \<ge> setsFor b)))"

text \<open>The pairs \<open>(p_i, p_j)\<close>, \<open>i < j\<close>, of a list, in the order of the specification.\<close>

fun allPairs :: "'a list \<Rightarrow> ('a \<times> 'a) list" where
  "allPairs [] = []"
| "allPairs (p # ps) = map (\<lambda>q. (p, q)) ps @ allPairs ps"

definition sides :: "match \<Rightarrow> js_string \<times> js_string" where
  "sides m = (homeParticipantId m, awayParticipantId m)"

text \<open>A pair without its order, and a list of pairs with each pair followed by its mirror.\<close>

definition unordered :: "'a \<times> 'a \<Rightarrow> 'a set" where
  "unordered p = {fst p, snd p}"

definition bothWays :: "('a \<times> 'a) list \<Rightarrow> ('a \<times> 'a) list" where
  "bothWays ps = concat (map (\<lambda>p. [p, (snd p, fst p)]) ps)"



text \<open>The documents of the committed batch that carry the name of a group.\<close>

definition groupBatch :: "(js_string \<rightharpoonup> participant) \<Rightarrow> championship \<Rightarrow> group \<Rightarrow> match list" where
  "groupBatch participantMap championship g =
     filter (\<lambda>m. groupName m = name g) (handleGenerateMatches participantMap championship)"

text \<open>The elements of a list at the positions congruent to \<open>k\<close> modulo \<open>n\<close>.\<close>

definition stripe :: "nat \<Rightarrow> nat \<Rightarrow> 'a list \<Rightarrow> 'a list" where
  "stripe n k xs = map snd (filter (\<lambda>ix. fst ix mod n = k) (enumerate 0 xs))"

section \<open>Auxiliary definitions\<close>

text \<open>Find the first row of a participant and replace it by its image under \<open>f\<close>.\<close>

definition updFirst :: "js_string \<Rightarrow> (stats \<Rightarrow> stats) \<Rightarrow> stats list \<Rightarrow> stats list" where
  "updFirst p f st =
     (case findIndex (\<lambda>s. participantId s = p) st of
        None \<Rightarrow> st
      | Some i \<Rightarrow> st[i := f (st ! i)])"

definition tally_ok :: "stats \<Rightarrow> bool" where
  "tally_ok s \<longleftrightarrow> played s = wins s + losses s \<and> points s = 2 * wins s + losses s"

text \<open>The row-wise reading of \<open>applyMatch\<close>: what one fixture does to one row.\<close>

definition stepRow :: "match \<Rightarrow> stats \<Rightarrow> stats" where
  "stepRow m s =
     (let s1 = (if participantId s = homeParticipantId m then creditHome m s else s)
      in if participantId s1 = awayParticipantId m then creditAway m s1 else s1)"

definition addCounts :: "stats \<Rightarrow> stats \<Rightarrow> stats" where
  "addCounts s d =
     s\<lparr>played := played s + played d, wins := wins s + wins d,
       losses := losses s + losses d, setsFor := setsFor s + setsFor d,
       setsAgainst := setsAgainst s + setsAgainst d, points := points s + points d\<rparr>"

text \<open>The documents of the inner loop's body, from the two ids it reads.\<close>

definition pairDocs ::
  "(js_string \<rightharpoonup> participant) \<Rightarrow> js_string \<Rightarrow> group \<Rightarrow> js_string \<Rightarrow> js_string \<Rightarrow> match list" where
  "pairDocs participantMap fmt g homeId awayId =
     (let base = matchBase participantMap g homeId awayId
      in base #
         (if fmt = js ''home_and_away''
          then [base\<lparr>homeParticipantId := awayId, awayParticipantId := homeId,
                     homeParticipantName := displayName participantMap awayId,
                     awayParticipantName := displayName participantMap homeId\<rparr>]
          else []))"

section \<open>Example data\<close>

text \<open>
  A group of three and six fixture documents: three completed fixtures of the group
  (one with equal set scores), a completed fixture of another group, a pending
  fixture, and a completed fixture whose home side is not a member of the group.
\<close>

definition exampleMatch ::
  "string \<Rightarrow> string \<Rightarrow> string \<Rightarrow> int \<Rightarrow> int \<Rightarrow> string \<Rightarrow> match" where
  "exampleMatch gn h a hs as st =
     \<lparr>stage = js ''group'', groupName = js gn,
      homeParticipantId = js h, awayParticipantId = js a,
      homeParticipantName = js h, awayParticipantName = js a,
      homeSets = Some hs, awaySets = Some as, status = js st\<rparr>"

definition exampleGroup :: group where
  "exampleGroup = \<lparr>name = js ''Grupo A'', participantIds = [js ''A'', js ''B'', js ''C'']\<rparr>"

definition exampleEarlier :: "match list" where
  "exampleEarlier =
     [exampleMatch ''Grupo A'' ''A'' ''B'' 3 1 ''completed'',
      exampleMatch ''Grupo A'' ''A'' ''C'' 2 3 ''completed'',
      exampleMatch ''Grupo A'' ''B'' ''C'' 2 2 ''completed'',
      exampleMatch ''Grupo B'' ''B'' ''C'' 3 0 ''completed'',
      exampleMatch ''Grupo A'' ''C'' ''B'' 3 0 ''pending'']"

definition exampleStray :: match where
  "exampleStray = exampleMatch ''Grupo A'' ''Z'' ''B'' 0 3 ''completed''"

definition exampleMatches :: "match list" where
  "exampleMatches = exampleEarlier @ [exampleStray]"

text \<open>A championship holding that group, with stored tables for two group names.\<close>

definition exampleChampionship :: championship where
  "exampleChampionship =
     \<lparr>groups = [exampleGroup],
      standings = [\<lparr>standingsGroupName = js ''Grupo B'', table = []\<rparr>,
                   \<lparr>standingsGroupName = js ''Grupo A'', table = []\<rparr>],
      groupStage = \<lparr>generated = True, numGroups = 2, numAdvancing = 2,
                     matchFormat = js ''single''\<rparr>\<rparr>"

text \<open>Two registered participants, and five participants to be put into groups.\<close>

definition exampleParticipantMap :: "js_string \<rightharpoonup> participant" where
  "exampleParticipantMap =
     [js ''a'' \<mapsto> \<lparr>p_id = js ''a'', p_name = js ''Ana''\<rparr>,
      js ''b'' \<mapsto> \<lparr>p_id = js ''b'', p_name = js ''Bia''\<rparr>]"

definition exampleParticipants :: "participant list" where
  "exampleParticipants =
     [\<lparr>p_id = js ''a'', p_name = js ''Ana''\<rparr>, \<lparr>p_id = js ''b'', p_name = js ''Bia''\<rparr>,
      \<lparr>p_id = js ''c'', p_name = js ''Caio''\<rparr>, \<lparr>p_id = js ''d'', p_name = js ''Davi''\<rparr>,
      \<lparr>p_id = js ''e'', p_name = js ''Eva''\<rparr>]"

text \<open>
  A championship of two groups in the home-and-away format, three participants, and an
  example of an engine: insertion sort from the left, which moves the new element
  down while the comparison function returns a positive number and stops when the
  results run out.
\<close>

definition exampleTwoGroups :: championship where
  "exampleTwoGroups =
     \<lparr>groups = [\<lparr>name = js ''Grupo A'', participantIds = [js ''D'', js ''E'']\<rparr>,
                exampleGroup\<lparr>name := js ''Grupo B''\<rparr>],
      standings = [],
      groupStage = \<lparr>generated = True, numGroups = 2, numAdvancing = 2,
                     matchFormat = js ''home_and_away''\<rparr>\<rparr>"




section \<open>Properties of the standings calculation\<close>

lemma js_eq_iff [simp]: "js a = js b \<longleftrightarrow> a = b"
  unfolding js_def by (simp add: inj_map_eq_map inj_on_def)

lemmas example_defs = exampleGroup_def exampleMatches_def exampleMatch_def exampleEarlier_def
  exampleStray_def exampleChampionship_def

lemmas standings_defs = computeTable_def foldedStandings_def groupMatches_def
  initialStandings_def applyMatch_def creditHome_def creditAway_def withSetDifference_def
  sortBy_def compareStandings_def toNumber_def Let_def

lemma set_insertBy: "set (insertBy cmp x xs) = insert x (set xs)"
  by (induction xs) auto

lemma set_sortBy: "set (sortBy cmp xs) = set xs"
  unfolding sortBy_def by (induction xs) (simp_all add: set_insertBy)

lemma updFirst_Nil [simp]: "updFirst p f [] = []"
  by (simp add: updFirst_def)

lemma updFirst_Cons [simp]:
  "updFirst p f (s # st) = (if participantId s = p then f s # st else s # updFirst p f st)"
  by (simp add: updFirst_def split: option.splits)

lemma findIndex_cong_ids:
  "map participantId st = map participantId st' \<Longrightarrow>
   findIndex (\<lambda>s. participantId s = p) st = findIndex (\<lambda>s. participantId s = p) st'"
proof (induction st arbitrary: st')
  case Nil
  then show ?case by simp
next
  case (Cons s st)
  then obtain s' st'' where "st' = s' # st''" by (cases st') auto
  with Cons show ?case by auto
qed

lemma participantId_creditHome [simp]: "participantId (creditHome m s) = participantId s"
  by (simp add: creditHome_def Let_def)

lemma participantId_creditAway [simp]: "participantId (creditAway m s) = participantId s"
  by (simp add: creditAway_def Let_def)

lemma ids_updFirst:
  "(\<And>s. participantId (f s) = participantId s) \<Longrightarrow>
   map participantId (updFirst p f st) = map participantId st"
  by (induction st) auto

text \<open>
  The second lookup of \<open>applyMatch\<close> may as well be made after the first update: an
  update never changes a row's id.
\<close>

lemma applyMatch_updFirst:
  "applyMatch m st =
     updFirst (awayParticipantId m) (creditAway m)
       (updFirst (homeParticipantId m) (creditHome m) st)"
proof -
  let ?st1 = "updFirst (homeParticipantId m) (creditHome m) st"
  have "map participantId ?st1 = map participantId st"
    by (rule ids_updFirst) simp
  then have "findIndex (\<lambda>s. participantId s = awayParticipantId m) ?st1 =
             findIndex (\<lambda>s. participantId s = awayParticipantId m) st"
    by (rule findIndex_cong_ids)
  then show ?thesis
    by (simp add: applyMatch_def updFirst_def Let_def)
qed

lemma list_all_updFirst:
  "list_all Q st \<Longrightarrow> (\<And>s. Q s \<Longrightarrow> Q (f s)) \<Longrightarrow> list_all Q (updFirst p f st)"
  by (induction st) auto

lemma tally_ok_creditHome: "tally_ok s \<Longrightarrow> tally_ok (creditHome m s)"
  by (simp add: tally_ok_def creditHome_def Let_def)

lemma tally_ok_creditAway: "tally_ok s \<Longrightarrow> tally_ok (creditAway m s)"
  by (simp add: tally_ok_def creditAway_def Let_def)

lemma tally_ok_applyMatch: "list_all tally_ok st \<Longrightarrow> list_all tally_ok (applyMatch m st)"
  by (simp add: applyMatch_updFirst list_all_updFirst tally_ok_creditHome tally_ok_creditAway)

lemma tally_ok_fold: "list_all tally_ok st \<Longrightarrow> list_all tally_ok (fold applyMatch ms st)"
  by (induction ms arbitrary: st) (simp_all add: tally_ok_applyMatch)

lemma tally_ok_initial: "list_all tally_ok (initialStandings g)"
  by (simp add: initialStandings_def list_all_iff tally_ok_def)

lemma tally_ok_withSetDifference:
  "list_all tally_ok st \<Longrightarrow> list_all tally_ok (withSetDifference st)"
  by (simp add: withSetDifference_def list_all_iff tally_ok_def)

text \<open>
  C9. Every row of a recomputed table has \<open>played = wins + losses\<close> and
  \<open>points = 2 * wins + losses\<close>, whatever the fixtures are; a completed fixture with
  equal set scores takes the \<^verbatim>\<open>else\<close> branch on both sides and keeps both equations.
\<close>

theorem table_rows_tally:
  "\<forall>r \<in> set (computeTable g updatedMatches gn).
     played r = wins r + losses r \<and> points r = 2 * wins r + losses r"
proof -
  have "list_all tally_ok (withSetDifference (foldedStandings g updatedMatches gn))"
    unfolding foldedStandings_def
    by (intro tally_ok_withSetDifference tally_ok_fold tally_ok_initial)
  then show ?thesis
    by (simp add: computeTable_def set_sortBy list_all_iff tally_ok_def)
qed

theorem table_rows_tally_witness:
  "map (\<lambda>r. (played r, wins r, losses r, points r))
       (computeTable exampleGroup exampleMatches (js ''Grupo A''))
     = [(3, 1, 2, 4), (2, 1, 1, 3), (2, 1, 1, 3)]
   \<and> list_all (\<lambda>r. played r = wins r + losses r \<and> points r = 2 * wins r + losses r)
        (computeTable exampleGroup exampleMatches (js ''Grupo A''))"
  using table_rows_tally [of exampleGroup exampleMatches "js ''Grupo A''"]
  by (simp add: example_defs standings_defs)

lemma updFirst_map:
  "distinct (map participantId st) \<Longrightarrow>
   updFirst p f st = map (\<lambda>s. if participantId s = p then f s else s) st"
proof (induction st)
  case Nil
  show ?case by simp
next
  case (Cons s st)
  show ?case
  proof (cases "participantId s = p")
    case True
    from Cons.prems have "participantId s \<notin> participantId ` set st" by simp
    then have "\<forall>x \<in> set st. participantId x \<noteq> participantId s" by (metis imageI)
    with True have "\<forall>x \<in> set st. participantId x \<noteq> p" by simp
    then have "map (\<lambda>s. if participantId s = p then f s else s) st = st"
      by (simp add: map_idI)
    with True show ?thesis by simp
  next
    case False
    with Cons show ?thesis by simp
  qed
qed

lemma applyMatch_map:
  assumes "distinct (map participantId st)"
  shows "applyMatch m st = map (stepRow m) st"
proof -
  let ?st1 = "updFirst (homeParticipantId m) (creditHome m) st"
  have ids: "map participantId ?st1 = map participantId st"
    by (rule ids_updFirst) simp
  have "applyMatch m st = updFirst (awayParticipantId m) (creditAway m) ?st1"
    by (rule applyMatch_updFirst)
  also have "\<dots> = map (\<lambda>s. if participantId s = awayParticipantId m then creditAway m s else s) ?st1"
  proof (rule updFirst_map)
    from assms show "distinct (map participantId ?st1)" unfolding ids .
  qed
  also have "?st1 = map (\<lambda>s. if participantId s = homeParticipantId m then creditHome m s else s) st"
    using assms by (rule updFirst_map)
  finally show ?thesis
    by (simp add: stepRow_def Let_def comp_def)
qed

lemma participantId_stepRow [simp]: "participantId (stepRow m s) = participantId s"
  by (simp add: stepRow_def Let_def)

lemma fold_applyMatch_map:
  "distinct (map participantId st) \<Longrightarrow> fold applyMatch ms st = map (fold stepRow ms) st"
proof (induction ms arbitrary: st)
  case Nil
  show ?case by simp
next
  case (Cons m ms)
  have "distinct (map participantId (map (stepRow m) st))"
    using Cons.prems by (simp add: comp_def)
  then have "fold applyMatch ms (map (stepRow m) st) = map (fold stepRow ms) (map (stepRow m) st)"
    by (rule Cons.IH)
  with Cons.prems show ?case
    by (simp add: applyMatch_map comp_def)
qed

lemma fold_stepRow:
  "fold stepRow ms s = addCounts s (rowOf ms (participantId s))"
proof (induction ms arbitrary: s)
  case Nil
  show ?case by (simp add: addCounts_def rowOf_def)
next
  case (Cons m ms)
  show ?case
    by (simp add: Cons.IH) (simp add: addCounts_def rowOf_def stepRow_def creditHome_def creditAway_def
        homeWon_def awayWon_def Let_def)
qed

lemma ids_initialStandings: "map participantId (initialStandings g) = participantIds g"
  by (simp add: initialStandings_def comp_def)

lemma rows_closed_form:
  assumes "distinct (participantIds g)"
  shows "withSetDifference (foldedStandings g ms gn) =
         map (rowOf (groupMatches ms gn)) (participantIds g)"
proof -
  have "distinct (map participantId (initialStandings g))"
    using assms by (simp only: ids_initialStandings)
  then have "foldedStandings g ms gn =
             map (fold stepRow (groupMatches ms gn)) (initialStandings g)"
    unfolding foldedStandings_def by (rule fold_applyMatch_map)
  then show ?thesis
    by (simp add: withSetDifference_def initialStandings_def fold_stepRow addCounts_def
        rowOf_def Let_def)
qed

lemma setDifference_withSetDifference:
  "\<forall>r \<in> set (withSetDifference st). setDifference r = setsFor r - setsAgainst r"
  by (simp add: withSetDifference_def)

text \<open>
  C1. The table is computed from exactly the fixtures of the group that are completed:
  a fixture of another group name or of another status leaves the rows as they are,
  and a completed fixture of the group is applied to them. For a group with distinct
  member ids the table is the sorted list of the rows \<open>rowOf\<close> over those fixtures, one
  per member, where a row counts one game per appearance, the sets of its own side as
  \<open>setsFor\<close> and of the other side as \<open>setsAgainst\<close>, a win with 2 points when its side
  has more sets and a loss with 1 point otherwise (equal sets are a loss for both
  sides). Every row of every table has \<open>setDifference = setsFor - setsAgainst\<close>. The
  handler calls \<open>computeTable\<close> with the group it found under the name \<open>gn\<close>.
\<close>

theorem recompute_counts_completed_group_fixtures:
  "(\<forall>r \<in> set (computeTable g updatedMatches gn).
      setDifference r = setsFor r - setsAgainst r)
   \<and> foldedStandings g (updatedMatches @ [m]) gn =
       (if groupName m = gn \<and> status m = js ''completed''
        then applyMatch m (foldedStandings g updatedMatches gn)
        else foldedStandings g updatedMatches gn)
   \<and> (distinct (participantIds g) \<longrightarrow>
        computeTable g updatedMatches gn =
        sortBy compareStandings
          (map (rowOf (filter (\<lambda>m. groupName m = gn \<and> status m = js ''completed'')
                         updatedMatches))
               (participantIds g)))"
proof (intro conjI impI)
  show "\<forall>r \<in> set (computeTable g updatedMatches gn).
      setDifference r = setsFor r - setsAgainst r"
    unfolding computeTable_def set_sortBy by (rule setDifference_withSetDifference)
next
  show "foldedStandings g (updatedMatches @ [m]) gn =
       (if groupName m = gn \<and> status m = js ''completed''
        then applyMatch m (foldedStandings g updatedMatches gn)
        else foldedStandings g updatedMatches gn)"
    by (simp add: foldedStandings_def groupMatches_def)
next
  assume "distinct (participantIds g)"
  then show "computeTable g updatedMatches gn =
        sortBy compareStandings
          (map (rowOf (filter (\<lambda>m. groupName m = gn \<and> status m = js ''completed'')
                         updatedMatches))
               (participantIds g))"
    by (simp add: computeTable_def rows_closed_form groupMatches_def)
qed

theorem recompute_counts_completed_group_fixtures_witness:
  "distinct (participantIds exampleGroup)
   \<and> computeTable exampleGroup exampleMatches (js ''Grupo A'') =
       [\<lparr>participantId = js ''B'', played = 3, wins = 1, losses = 2, setsFor = 6,
          setsAgainst = 5, setDifference = 1, points = 4\<rparr>,
        \<lparr>participantId = js ''A'', played = 2, wins = 1, losses = 1, setsFor = 5,
          setsAgainst = 4, setDifference = 1, points = 3\<rparr>,
        \<lparr>participantId = js ''C'', played = 2, wins = 1, losses = 1, setsFor = 5,
          setsAgainst = 4, setDifference = 1, points = 3\<rparr>]"
  using recompute_counts_completed_group_fixtures
          [of exampleGroup exampleMatches "js ''Grupo A''" exampleStray]
  by (simp add: example_defs rowOf_def homeWon_def awayWon_def toNumber_def sortBy_def
      compareStandings_def Let_def)

section \<open>Unknown participants\<close>

lemma findIndex_None: "\<forall>x \<in> set xs. \<not> P x \<Longrightarrow> findIndex P xs = None"
  by (induction xs) auto

lemma ids_applyMatch: "map participantId (applyMatch m st) = map participantId st"
  by (simp add: applyMatch_updFirst ids_updFirst)

lemma ids_fold_applyMatch: "map participantId (fold applyMatch ms st) = map participantId st"
  by (induction ms arbitrary: st) (simp_all add: ids_applyMatch)

lemma ids_foldedStandings: "map participantId (foldedStandings g ms gn) = participantIds g"
  by (simp add: foldedStandings_def ids_fold_applyMatch ids_initialStandings)

lemma ids_withSetDifference: "map participantId (withSetDifference st) = map participantId st"
  by (simp add: withSetDifference_def comp_def)

lemma mset_insertBy: "mset (insertBy cmp x xs) = add_mset x (mset xs)"
  by (induction xs) auto

lemma mset_sortBy: "mset (sortBy cmp xs) = mset xs"
  unfolding sortBy_def by (induction xs) (simp_all add: mset_insertBy)

lemma foldedStandings_snoc:
  "groupName m = gn \<Longrightarrow> status m = js ''completed'' \<Longrightarrow>
   foldedStandings g (ms @ [m]) gn = applyMatch m (foldedStandings g ms gn)"
  by (simp add: foldedStandings_def groupMatches_def)

lemma applyMatch_home_unknown:
  assumes "homeParticipantId m \<notin> set (map participantId st)"
  shows "applyMatch m st =
         (case findIndex (\<lambda>s. participantId s = awayParticipantId m) st of
            None \<Rightarrow> st
          | Some j \<Rightarrow> st[j := creditAway m (st ! j)])"
proof -
  have "findIndex (\<lambda>s. participantId s = homeParticipantId m) st = None"
    using assms by (intro findIndex_None) (auto simp: image_iff)
  then show ?thesis by (simp add: applyMatch_def)
qed

lemma applyMatch_away_unknown:
  assumes "awayParticipantId m \<notin> set (map participantId st)"
  shows "applyMatch m st =
         (case findIndex (\<lambda>s. participantId s = homeParticipantId m) st of
            None \<Rightarrow> st
          | Some i \<Rightarrow> st[i := creditHome m (st ! i)])"
proof -
  have "findIndex (\<lambda>s. participantId s = awayParticipantId m) st = None"
    using assms by (intro findIndex_None) (auto simp: image_iff)
  then show ?thesis by (simp add: applyMatch_def Let_def)
qed

text \<open>
  C10. The recomputation has no failing branch. The table has exactly one row per entry
  of the group's member list, whatever ids the fixtures name. A completed fixture of
  the group whose home id is not a member leaves every row as it was except the away
  side's row, if there is one, which is credited as usual; the same with the sides
  exchanged.
\<close>

theorem unknown_participant_is_skipped:
  "mset (map participantId (computeTable g ms gn)) = mset (participantIds g)
   \<and> (groupName m = gn \<and> status m = js ''completed''
        \<and> homeParticipantId m \<notin> set (participantIds g) \<longrightarrow>
      foldedStandings g (ms @ [m]) gn =
        (case findIndex (\<lambda>s. participantId s = awayParticipantId m) (foldedStandings g ms gn) of
           None \<Rightarrow> foldedStandings g ms gn
         | Some j \<Rightarrow> (foldedStandings g ms gn)
                       [j := creditAway m (foldedStandings g ms gn ! j)]))
   \<and> (groupName m = gn \<and> status m = js ''completed''
        \<and> awayParticipantId m \<notin> set (participantIds g) \<longrightarrow>
      foldedStandings g (ms @ [m]) gn =
        (case findIndex (\<lambda>s. participantId s = homeParticipantId m) (foldedStandings g ms gn) of
           None \<Rightarrow> foldedStandings g ms gn
         | Some i \<Rightarrow> (foldedStandings g ms gn)
                       [i := creditHome m (foldedStandings g ms gn ! i)]))"
proof (intro conjI impI)
  have "mset (map participantId (computeTable g ms gn)) =
        mset (map participantId (withSetDifference (foldedStandings g ms gn)))"
    unfolding computeTable_def by (simp only: mset_map mset_sortBy)
  then show "mset (map participantId (computeTable g ms gn)) = mset (participantIds g)"
    by (simp only: ids_withSetDifference ids_foldedStandings)
next
  assume a: "groupName m = gn \<and> status m = js ''completed''
        \<and> homeParticipantId m \<notin> set (participantIds g)"
  then have u: "homeParticipantId m \<notin> set (map participantId (foldedStandings g ms gn))"
    by (simp add: ids_foldedStandings)
  from a have s: "foldedStandings g (ms @ [m]) gn = applyMatch m (foldedStandings g ms gn)"
    by (simp add: foldedStandings_snoc)
  show "foldedStandings g (ms @ [m]) gn =
        (case findIndex (\<lambda>s. participantId s = awayParticipantId m) (foldedStandings g ms gn) of
           None \<Rightarrow> foldedStandings g ms gn
         | Some j \<Rightarrow> (foldedStandings g ms gn)
                       [j := creditAway m (foldedStandings g ms gn ! j)])"
    unfolding s using u by (rule applyMatch_home_unknown)
next
  assume a: "groupName m = gn \<and> status m = js ''completed''
        \<and> awayParticipantId m \<notin> set (participantIds g)"
  then have u: "awayParticipantId m \<notin> set (map participantId (foldedStandings g ms gn))"
    by (simp add: ids_foldedStandings)
  from a have s: "foldedStandings g (ms @ [m]) gn = applyMatch m (foldedStandings g ms gn)"
    by (simp add: foldedStandings_snoc)
  show "foldedStandings g (ms @ [m]) gn =
        (case findIndex (\<lambda>s. participantId s = homeParticipantId m) (foldedStandings g ms gn) of
           None \<Rightarrow> foldedStandings g ms gn
         | Some i \<Rightarrow> (foldedStandings g ms gn)
                       [i := creditHome m (foldedStandings g ms gn ! i)])"
    unfolding s using u by (rule applyMatch_away_unknown)
qed


theorem unknown_participant_is_skipped_witness:
  "groupName exampleStray = js ''Grupo A'' \<and> status exampleStray = js ''completed''
   \<and> homeParticipantId exampleStray \<notin> set (participantIds exampleGroup)
   \<and> map (\<lambda>r. (participantId r, played r, wins r, points r))
          (foldedStandings exampleGroup exampleEarlier (js ''Grupo A''))
       = [(js ''A'', 2, 1, 3), (js ''B'', 2, 0, 2), (js ''C'', 2, 1, 3)]
   \<and> map (\<lambda>r. (participantId r, played r, wins r, points r))
          (foldedStandings exampleGroup (exampleEarlier @ [exampleStray]) (js ''Grupo A''))
       = [(js ''A'', 2, 1, 3), (js ''B'', 3, 1, 4), (js ''C'', 2, 1, 3)]
   \<and> awayParticipantId (exampleMatch ''Grupo A'' ''C'' ''Z'' 3 0 ''completed'')
         \<notin> set (participantIds exampleGroup)
   \<and> map (\<lambda>r. (participantId r, played r, wins r, points r))
          (foldedStandings exampleGroup
             (exampleEarlier @ [exampleMatch ''Grupo A'' ''C'' ''Z'' 3 0 ''completed''])
             (js ''Grupo A''))
       = [(js ''A'', 2, 1, 3), (js ''B'', 2, 0, 2), (js ''C'', 3, 2, 5)]
   \<and> mset (map participantId
              (computeTable exampleGroup (exampleEarlier @ [exampleStray]) (js ''Grupo A'')))
       = mset (participantIds exampleGroup)"
  using unknown_participant_is_skipped
          [of exampleGroup "exampleEarlier @ [exampleStray]" "js ''Grupo A''" exampleStray]
        unknown_participant_is_skipped
          [of exampleGroup exampleEarlier "js ''Grupo A''" exampleStray]
        unknown_participant_is_skipped
          [of exampleGroup exampleEarlier "js ''Grupo A''"
              "exampleMatch ''Grupo A'' ''C'' ''Z'' 3 0 ''completed''"]
  by (simp add: example_defs standings_defs)

section \<open>Ranking\<close>

lemma compare_le_iff: "compareStandings a b \<le> 0 \<longleftrightarrow> rankedBefore a b"
  by (auto simp: compareStandings_def rankedBefore_def)

lemma compare_pos_keys: "\<not> compareStandings x y \<le> 0 \<Longrightarrow> rankKey y \<noteq> rankKey x"
  by (auto simp: compareStandings_def rankKey_def split: if_splits)

lemma rankedBefore_total: "\<not> rankedBefore a b \<Longrightarrow> rankedBefore b a"
  by (auto simp: rankedBefore_def)

lemma rankedBefore_trans: "rankedBefore a b \<Longrightarrow> rankedBefore b c \<Longrightarrow> rankedBefore a c"
  by (auto simp: rankedBefore_def)

lemma sorted_insertBy:
  "sorted_wrt rankedBefore xs \<Longrightarrow> sorted_wrt rankedBefore (insertBy compareStandings x xs)"
proof (induction xs)
  case Nil
  show ?case by simp
next
  case (Cons y ys)
  show ?case
  proof (cases "compareStandings x y \<le> 0")
    case True
    then have xy: "rankedBefore x y" by (simp add: compare_le_iff)
    have "\<forall>z \<in> set ys. rankedBefore x z"
      using Cons.prems xy by (auto intro: rankedBefore_trans)
    with True xy Cons.prems show ?thesis by simp
  next
    case False
    then have yx: "rankedBefore y x" by (simp add: compare_le_iff rankedBefore_total)
    have "sorted_wrt rankedBefore (insertBy compareStandings x ys)"
      using Cons by simp
    with False yx Cons.prems show ?thesis by (simp add: set_insertBy)
  qed
qed

lemma sorted_sortBy: "sorted_wrt rankedBefore (sortBy compareStandings xs)"
  unfolding sortBy_def by (induction xs) (simp_all add: sorted_insertBy)

lemma filter_insertBy:
  "filter (\<lambda>r. rankKey r = k) (insertBy compareStandings x xs) =
     (if rankKey x = k then x # filter (\<lambda>r. rankKey r = k) xs
      else filter (\<lambda>r. rankKey r = k) xs)"
proof (induction xs)
  case Nil
  show ?case by simp
next
  case (Cons y ys)
  show ?case
  proof (cases "compareStandings x y \<le> 0")
    case True
    then show ?thesis by simp
  next
    case False
    then have "rankKey y \<noteq> rankKey x" by (rule compare_pos_keys)
    with False Cons.IH show ?thesis by auto
  qed
qed

lemma stable_sortBy:
  "filter (\<lambda>r. rankKey r = k) (sortBy compareStandings xs) = filter (\<lambda>r. rankKey r = k) xs"
  unfolding sortBy_def by (induction xs) (simp_all add: filter_insertBy)

lemma participantId_rowOf: "participantId (rowOf ms p) = p"
  by (simp add: rowOf_def Let_def)

text \<open>
  C2. The table is ordered by points, then set difference, then sets won, each
  descending. It is a rearrangement of the rows built in member order, and rows with
  the same three keys keep the order they had there: for a group with distinct ids,
  the ids of the rows with keys \<open>k\<close>, read down the table, are the members whose rows
  have keys \<open>k\<close>, in the order of the member list.
\<close>

theorem table_ranked_and_stable:
  "sorted_wrt rankedBefore (computeTable g ms gn)
   \<and> mset (computeTable g ms gn) = mset (withSetDifference (foldedStandings g ms gn))
   \<and> map participantId (withSetDifference (foldedStandings g ms gn)) = participantIds g
   \<and> filter (\<lambda>r. rankKey r = k) (computeTable g ms gn) =
       filter (\<lambda>r. rankKey r = k) (withSetDifference (foldedStandings g ms gn))
   \<and> (distinct (participantIds g) \<longrightarrow>
         map participantId (filter (\<lambda>r. rankKey r = k) (computeTable g ms gn)) =
         filter (\<lambda>p. rankKey (rowOf (groupMatches ms gn) p) = k) (participantIds g))"
proof (intro conjI impI)
  show "sorted_wrt rankedBefore (computeTable g ms gn)"
    unfolding computeTable_def by (rule sorted_sortBy)
  show "mset (computeTable g ms gn) = mset (withSetDifference (foldedStandings g ms gn))"
    unfolding computeTable_def by (rule mset_sortBy)
  show "map participantId (withSetDifference (foldedStandings g ms gn)) = participantIds g"
    by (simp only: ids_withSetDifference ids_foldedStandings)
  show st: "filter (\<lambda>r. rankKey r = k) (computeTable g ms gn) =
       filter (\<lambda>r. rankKey r = k) (withSetDifference (foldedStandings g ms gn))"
    unfolding computeTable_def by (rule stable_sortBy)
  assume "distinct (participantIds g)"
  then have "withSetDifference (foldedStandings g ms gn) =
             map (rowOf (groupMatches ms gn)) (participantIds g)"
    by (rule rows_closed_form)
  with st show "map participantId (filter (\<lambda>r. rankKey r = k) (computeTable g ms gn)) =
         filter (\<lambda>p. rankKey (rowOf (groupMatches ms gn) p) = k) (participantIds g)"
    by (simp add: filter_map comp_def participantId_rowOf)
qed

theorem table_ranked_and_stable_witness:
  "distinct (participantIds exampleGroup)
   \<and> map participantId (computeTable exampleGroup exampleMatches (js ''Grupo A''))
       = [js ''B'', js ''A'', js ''C'']
   \<and> map rankKey (computeTable exampleGroup exampleMatches (js ''Grupo A''))
       = [(4, 1, 6), (3, 1, 5), (3, 1, 5)]
   \<and> map participantId
         (filter (\<lambda>r. rankKey r = (3, 1, 5))
                 (computeTable exampleGroup exampleMatches (js ''Grupo A'')))
       = [js ''A'', js ''C'']"
  using table_ranked_and_stable [of exampleGroup exampleMatches "js ''Grupo A''" "(3, 1, 5)"]
  by (simp add: example_defs standings_defs rankKey_def)

section \<open>Writing the table back\<close>




section \<open>Group generation\<close>

text \<open>
  C7. Group generation is refused with \<open>InvalidConfiguration\<close> exactly when the number of
  groups is below 1 or fewer than two participants are given; a refused call leaves the
  championship as it was, and every other call is carried out.
\<close>

theorem generate_groups_refusal:
  "(fst (handleGenerateGroups shuffle participants c) = Some InvalidConfiguration
      \<longleftrightarrow> numGroups (groupStage c) < 1 \<or> length participants < 2)
   \<and> (numGroups (groupStage c) < 1 \<or> length participants < 2 \<longrightarrow>
        snd (handleGenerateGroups shuffle participants c) = c)
   \<and> (1 \<le> numGroups (groupStage c) \<and> 2 \<le> length participants \<longrightarrow>
        fst (handleGenerateGroups shuffle participants c) = None
        \<and> generated (groupStage (snd (handleGenerateGroups shuffle participants c))))"
  by (auto simp: handleGenerateGroups_def Let_def)

theorem generate_groups_refusal_witness:
  "handleGenerateGroups id [\<lparr>p_id = js ''a'', p_name = js ''Ana''\<rparr>, \<lparr>p_id = js ''b'', p_name = js ''Bia''\<rparr>]
      (exampleChampionship\<lparr>groupStage := (groupStage exampleChampionship)\<lparr>numGroups := 0\<rparr>\<rparr>)
     = (Some InvalidConfiguration, exampleChampionship\<lparr>groupStage := (groupStage exampleChampionship)\<lparr>numGroups := 0\<rparr>\<rparr>)
   \<and> handleGenerateGroups id [\<lparr>p_id = js ''a'', p_name = js ''Ana''\<rparr>] exampleChampionship
     = (Some InvalidConfiguration, exampleChampionship)
   \<and> fst (handleGenerateGroups id [\<lparr>p_id = js ''a'', p_name = js ''Ana''\<rparr>, \<lparr>p_id = js ''b'', p_name = js ''Bia''\<rparr>]
      exampleChampionship) = None"
  using generate_groups_refusal [of id "[\<lparr>p_id = js ''a'', p_name = js ''Ana''\<rparr>, \<lparr>p_id = js ''b'', p_name = js ''Bia''\<rparr>]"
           "exampleChampionship\<lparr>groupStage := (groupStage exampleChampionship)\<lparr>numGroups := 0\<rparr>\<rparr>"]
     generate_groups_refusal [of id "[\<lparr>p_id = js ''a'', p_name = js ''Ana''\<rparr>]" exampleChampionship]
     generate_groups_refusal [of id "[\<lparr>p_id = js ''a'', p_name = js ''Ana''\<rparr>, \<lparr>p_id = js ''b'', p_name = js ''Bia''\<rparr>]" exampleChampionship]
  by (simp add: handleGenerateGroups_def exampleChampionship_def Let_def)

lemma length_emptyGroups [simp]: "length (emptyGroups n) = n"
  by (simp add: emptyGroups_def)

lemma participantIds_emptyGroups: "k < n \<Longrightarrow> participantIds (emptyGroups n ! k) = []"
  by (simp add: emptyGroups_def)

lemma length_pushParticipant [simp]: "length (pushParticipant n ip gs) = length gs"
  by (simp add: pushParticipant_def Let_def)

lemma fold_pushParticipant:
  assumes "0 < n" and "length gs = n" and "k < n"
  shows "participantIds (fold (pushParticipant n) (enumerate i xs) gs ! k) =
         participantIds (gs ! k)
           @ map p_id (map snd (filter (\<lambda>ix. fst ix mod n = k) (enumerate i xs)))"
  using assms(2)
proof (induction xs arbitrary: i gs)
  case Nil
  show ?case by simp
next
  case (Cons x xs)
  let ?gs' = "pushParticipant n (i, x) gs"
  have len: "length ?gs' = n" using Cons.prems by simp
  have step: "participantIds (?gs' ! k) =
              participantIds (gs ! k) @ (if i mod n = k then [p_id x] else [])"
    using Cons.prems assms(1,3) by (simp add: pushParticipant_def Let_def nth_list_update)
  have "participantIds (fold (pushParticipant n) (enumerate (Suc i) xs) ?gs' ! k) =
        participantIds (?gs' ! k)
          @ map p_id (map snd (filter (\<lambda>ix. fst ix mod n = k) (enumerate (Suc i) xs)))"
    using len by (rule Cons.IH)
  then show ?case by (simp add: step)
qed

lemma length_fold_pushParticipant:
  "length (fold (pushParticipant n) es gs) = length gs"
  by (induction es arbitrary: gs) simp_all

lemma length_distribute [simp]: "length (distribute n xs) = n"
  by (simp add: distribute_def length_fold_pushParticipant)

lemma distribute_stripe:
  assumes "0 < n" and "k < n"
  shows "participantIds (distribute n xs ! k) = map p_id (stripe n k xs)"
  unfolding distribute_def stripe_def
  using fold_pushParticipant [OF assms(1) length_emptyGroups assms(2), of 0 xs] assms(2)
  by (simp add: participantIds_emptyGroups)

lemma length_filter_enumerate:
  "length (filter (\<lambda>ix. P (fst ix)) (enumerate i xs)) = length (filter P [i..<i + length xs])"
proof (induction xs arbitrary: i)
  case Nil
  show ?case by simp
next
  case (Cons x xs)
  have "[i..<i + length (x # xs)] = i # [Suc i..<Suc i + length xs]"
    by (subst upt_rec) simp
  with Cons.IH [of "Suc i"] show ?case by simp
qed

lemma count_residue:
  assumes "k < n"
  shows "length (filter (\<lambda>i. i mod n = k) [0..<m]) = m div n + (if k < m mod n then 1 else 0)"
proof (induction m)
  case 0
  show ?case by simp
next
  case (Suc m)
  have n: "0 < n" using assms by simp
  show ?case
  proof (cases "Suc (m mod n) = n")
    case True
    then have "Suc m mod n = 0" "Suc m div n = Suc (m div n)"
      by (simp_all add: mod_Suc div_Suc)
    with True Suc assms show ?thesis by auto
  next
    case False
    then have "Suc m mod n = Suc (m mod n)" "Suc m div n = m div n"
      by (simp_all add: mod_Suc div_Suc)
    with False Suc assms show ?thesis by auto
  qed
qed

lemma length_stripe:
  assumes "k < n"
  shows "length (stripe n k xs) = length xs div n + (if k < length xs mod n then 1 else 0)"
  using length_filter_enumerate [of "\<lambda>i. i mod n = k" 0 xs] count_residue [OF assms, of "length xs"]
  by (simp add: stripe_def)

lemma ceiling_div:
  assumes "0 < (n::nat)"
  shows "(m + n - 1) div n = m div n + (if m mod n = 0 then 0 else 1)"
proof -
  define q r where "q = m div n" and "r = m mod n"
  have m: "m = n * q + r" and r: "r < n"
    using assms by (simp_all add: q_def r_def)
  show ?thesis
  proof (cases "r = 0")
    case True
    have "(m + n - 1) div n = q"
      using assms m True by (intro div_nat_eqI) simp_all
    with True show ?thesis by (simp add: q_def r_def)
  next
    case False
    have "(m + n - 1) div n = Suc q"
      using assms m r False by (intro div_nat_eqI) simp_all
    with False show ?thesis by (simp add: q_def r_def)
  qed
qed


lemma mset_concat_update:
  "k < length gs \<Longrightarrow>
   mset (concat (map f (gs[k := v]))) + mset (f (gs ! k)) = mset (concat (map f gs)) + mset (f v)"
proof (induction gs arbitrary: k)
  case Nil
  then show ?case by simp
next
  case (Cons g gs)
  show ?case
  proof (cases k)
    case 0
    then show ?thesis by simp
  next
    case (Suc j)
    with Cons.prems have "j < length gs" by simp
    from Cons.IH [OF this] Suc show ?thesis by (simp add: ac_simps)
  qed
qed

lemma mset_pushParticipant:
  assumes "0 < n" and "length gs = n"
  shows "mset (concat (map participantIds (pushParticipant n ip gs))) =
         add_mset (p_id (snd ip)) (mset (concat (map participantIds gs)))"
proof -
  let ?k = "fst ip mod n"
  let ?v = "(gs ! ?k)\<lparr>participantIds := participantIds (gs ! ?k) @ [p_id (snd ip)]\<rparr>"
  have "?k < length gs" using assms by simp
  from mset_concat_update [OF this, of participantIds ?v]
  show ?thesis by (simp add: pushParticipant_def Let_def)
qed

lemma mset_fold_pushParticipant:
  "0 < n \<Longrightarrow> length gs = n \<Longrightarrow>
   mset (concat (map participantIds (fold (pushParticipant n) es gs))) =
   mset (concat (map participantIds gs)) + mset (map (\<lambda>ip. p_id (snd ip)) es)"
  by (induction es arbitrary: gs) (simp_all add: mset_pushParticipant)

lemma concat_emptyGroups: "concat (map participantIds (emptyGroups n)) = []"
  by (simp add: emptyGroups_def comp_def)

lemma mset_distribute:
  assumes "0 < n"
  shows "mset (concat (map participantIds (distribute n xs))) = mset (map p_id xs)"
proof -
  have "map (\<lambda>ip. p_id (snd ip)) (enumerate i xs) = map p_id xs" for i
    by (induction xs arbitrary: i) simp_all
  then have "mset (map (\<lambda>ip. p_id (snd ip)) (enumerate 0 xs)) = mset (map p_id xs)"
    by simp
  with mset_fold_pushParticipant [OF assms length_emptyGroups, of "enumerate 0 xs"]
  show ?thesis by (simp add: distribute_def concat_emptyGroups)
qed

text \<open>
  C4. Let the shuffle return a rearrangement of at least two participants, and let the
  number of groups \<open>g\<close> be at least 1. Then \<open>g\<close> groups are made; group \<open>k\<close> holds the ids
  at the shuffled positions \<open>i\<close> with \<open>i mod g = k\<close>, in shuffled order; its size is
  \<open>n div g\<close> or \<open>(n + g - 1) div g\<close>; the groups together hold every participant's id
  as often as the input does, so for distinct ids no id is in two groups or twice in
  one.
\<close>

theorem groups_partition_shuffled_participants:
  assumes "mset (shuffle participants) = mset participants"
      and "2 \<le> length participants"
      and "1 \<le> numGroups (groupStage c)"
  shows "fst (handleGenerateGroups shuffle participants c) = None
    \<and> length (groups (snd (handleGenerateGroups shuffle participants c)))
        = nat (numGroups (groupStage c))
    \<and> (\<forall>k < nat (numGroups (groupStage c)).
          participantIds (groups (snd (handleGenerateGroups shuffle participants c)) ! k)
            = map p_id (stripe (nat (numGroups (groupStage c))) k (shuffle participants))
          \<and> (length (participantIds
                 (groups (snd (handleGenerateGroups shuffle participants c)) ! k))
                = length participants div nat (numGroups (groupStage c))
              \<or> length (participantIds
                   (groups (snd (handleGenerateGroups shuffle participants c)) ! k))
                = (length participants + nat (numGroups (groupStage c)) - 1)
                    div nat (numGroups (groupStage c))))
    \<and> mset (concat (map participantIds
               (groups (snd (handleGenerateGroups shuffle participants c)))))
        = mset (map p_id participants)
    \<and> (distinct (map p_id participants) \<longrightarrow>
          distinct (concat (map participantIds
                      (groups (snd (handleGenerateGroups shuffle participants c))))))"
proof -
  let ?n = "nat (numGroups (groupStage c))"
  let ?sh = "shuffle participants"
  have n: "0 < ?n" using assms(3) by simp
  have res: "handleGenerateGroups shuffle participants c =
        (None, c\<lparr>groups := distribute ?n ?sh, standings := map zeroTable (distribute ?n ?sh),
                 groupStage := (groupStage c)\<lparr>generated := True\<rparr>\<rparr>)"
    using assms(2,3) by (simp add: handleGenerateGroups_def Let_def)
  have len: "length ?sh = length participants"
    using assms(1) by (rule mset_eq_length)
  have ids: "mset (map p_id ?sh) = mset (map p_id participants)"
    using assms(1) by (metis mset_map)
  have sizes: "length (participantIds (distribute ?n ?sh ! k)) = length participants div ?n
             \<or> length (participantIds (distribute ?n ?sh ! k))
                = (length participants + ?n - 1) div ?n" if "k < ?n" for k
  proof -
    have "length (participantIds (distribute ?n ?sh ! k)) =
          length participants div ?n + (if k < length participants mod ?n then 1 else 0)"
      using that n by (simp add: distribute_stripe length_stripe len)
    moreover have "(length participants + ?n - 1) div ?n =
          length participants div ?n + (if length participants mod ?n = 0 then 0 else 1)"
      using n by (rule ceiling_div)
    ultimately show ?thesis by (auto split: if_splits)
  qed
  have part: "mset (concat (map participantIds (distribute ?n ?sh))) = mset (map p_id participants)"
    using mset_distribute [OF n, of ?sh] ids by simp
  have dis: "distinct (concat (map participantIds (distribute ?n ?sh)))"
    if "distinct (map p_id participants)"
    using that part by (metis mset_eq_imp_distinct_iff)
  show ?thesis
    unfolding res using n sizes part dis by (simp add: distribute_stripe)
qed

theorem groups_partition_shuffled_participants_witness:
  "mset (rev exampleParticipants) = mset exampleParticipants
   \<and> 2 \<le> length exampleParticipants
   \<and> 1 \<le> numGroups (groupStage exampleChampionship)
   \<and> map participantIds (groups (snd (handleGenerateGroups rev exampleParticipants
                                          exampleChampionship)))
       = [[js ''e'', js ''c'', js ''a''], [js ''d'', js ''b'']]
   \<and> length exampleParticipants div 2 = 2 \<and> (length exampleParticipants + 2 - 1) div 2 = 3
   \<and> distinct (map p_id exampleParticipants)"
  using groups_partition_shuffled_participants [of rev exampleParticipants exampleChampionship]
  by (simp add: exampleParticipants_def exampleChampionship_def handleGenerateGroups_def
      distribute_def pushParticipant_def emptyGroups_def enumerate_eq_zip upt_rec Let_def)

section \<open>The shuffle\<close>















section \<open>Fixture generation\<close>

lemma pairMatches_pairDocs:
  "pairMatches pm fmt g i j = pairDocs pm fmt g (participantIds g ! i) (participantIds g ! j)"
  by (simp add: pairMatches_def pairDocs_def Let_def)

lemma loops_allPairs:
  "concat (map (\<lambda>i. concat (map (\<lambda>j. F (xs ! i) (xs ! j)) [Suc i..<length xs])) [0..<length xs])
   = concat (map (\<lambda>p. F (fst p) (snd p)) (allPairs xs))"
proof (induction xs)
  case Nil
  show ?case by simp
next
  case (Cons x xs)
  let ?n = "length xs"
  let ?row = "\<lambda>ys i. concat (map (\<lambda>j. F (ys ! i) (ys ! j)) [Suc i..<length ys])"
  have outer: "[0..<Suc ?n] = 0 # map Suc [0..<?n]"
    by (simp only: upt_conv_Cons [of 0 "Suc ?n"] map_Suc_upt zero_less_Suc)
  have inner: "[Suc i..<Suc ?n] = map Suc [i..<?n]" for i
    by (simp only: map_Suc_upt)
  have row: "?row (x # xs) i = concat (map (\<lambda>j. F ((x # xs) ! i) (xs ! j)) [i..<?n])" for i
    by (simp only: length_Cons inner map_map comp_def nth_Cons_Suc)
  have "?row (x # xs) 0 = concat (map (\<lambda>j. F ((x # xs) ! 0) (xs ! j)) [0..<?n])"
    by (rule row)
  also have "\<dots> = concat (map (F x) (map ((!) xs) [0..<?n]))"
    by (simp only: nth_Cons_0 map_map comp_def)
  finally have first: "?row (x # xs) 0 = concat (map (F x) xs)"
    by (simp only: map_nth)
  have rest: "map (?row (x # xs)) (map Suc [0..<?n]) = map (?row xs) [0..<?n]"
    by (simp only: map_map comp_def row nth_Cons_Suc)
  have "concat (map (?row (x # xs)) [0..<length (x # xs)])
        = ?row (x # xs) 0 @ concat (map (?row (x # xs)) (map Suc [0..<?n]))"
    by (simp only: length_Cons outer list.map concat.simps)
  also have "\<dots> = concat (map (F x) xs) @ concat (map (?row xs) [0..<?n])"
    by (simp only: first rest)
  also have "\<dots> = concat (map (F x) xs) @ concat (map (\<lambda>p. F (fst p) (snd p)) (allPairs xs))"
    by (simp only: Cons.IH)
  also have "\<dots> = concat (map (\<lambda>p. F (fst p) (snd p)) (allPairs (x # xs)))"
    by (simp add: comp_def)
  finally show ?case .
qed

lemma groupFixtures_allPairs:
  "groupFixtures pm fmt g =
     concat (map (\<lambda>p. pairDocs pm fmt g (fst p) (snd p)) (allPairs (participantIds g)))"
  unfolding groupFixtures_def Let_def pairMatches_pairDocs Suc_eq_plus1 [symmetric]
  by (rule loops_allPairs)

lemma sides_pairDocs:
  "map sides (pairDocs pm fmt g a b) =
     (if fmt = js ''home_and_away'' then [(a, b), (b, a)] else [(a, b)])"
  by (simp add: pairDocs_def matchBase_def sides_def Let_def)

lemma sides_groupFixtures:
  "map sides (groupFixtures pm fmt g) =
     (if fmt = js ''home_and_away'' then bothWays (allPairs (participantIds g))
      else allPairs (participantIds g))"
  by (simp add: groupFixtures_allPairs map_concat comp_def sides_pairDocs bothWays_def)

lemma allPairs_members: "(a, b) \<in> set (allPairs xs) \<Longrightarrow> a \<in> set xs \<and> b \<in> set xs"
  by (induction xs) auto

lemma allPairs_irrefl:
  "distinct xs \<Longrightarrow> (a, b) \<in> set (allPairs xs) \<Longrightarrow> a \<noteq> b \<and> (b, a) \<notin> set (allPairs xs)"
  by (induction xs) (auto dest: allPairs_members)

lemma allPairs_covers:
  "a \<in> set xs \<Longrightarrow> b \<in> set xs \<Longrightarrow> a \<noteq> b \<Longrightarrow>
   (a, b) \<in> set (allPairs xs) \<or> (b, a) \<in> set (allPairs xs)"
  by (induction xs) auto

lemma distinct_allPairs: "distinct xs \<Longrightarrow> distinct (allPairs xs)"
  by (induction xs) (auto simp: distinct_map inj_on_def dest: allPairs_members)

lemma length_allPairs_twice: "2 * length (allPairs xs) = length xs * (length xs - 1)"
proof (induction xs)
  case Nil
  show ?case by simp
next
  case (Cons x xs)
  show ?case
  proof (cases xs)
    case Nil
    then show ?thesis by simp
  next
    case (Cons y ys)
    with Cons.IH show ?thesis by (simp add: algebra_simps)
  qed
qed

lemma length_allPairs: "length (allPairs xs) = length xs * (length xs - 1) div 2"
  using length_allPairs_twice [of xs] by simp


lemma unordered_inj:
  assumes "distinct xs"
  shows "inj_on unordered (set (allPairs xs))"
proof (rule inj_onI)
  fix p q
  assume p: "p \<in> set (allPairs xs)" and q: "q \<in> set (allPairs xs)"
    and eq: "unordered p = unordered q"
  obtain a b where pab: "p = (a, b)" by (cases p)
  obtain c d where qcd: "q = (c, d)" by (cases q)
  from eq have "{a, b} = {c, d}" by (simp add: unordered_def pab qcd)
  then have "(a = c \<and> b = d) \<or> (a = d \<and> b = c)" by (simp add: doubleton_eq_iff)
  moreover have "(b, a) \<notin> set (allPairs xs)"
    using allPairs_irrefl [OF assms, of a b] p pab by simp
  ultimately show "p = q" using q pab qcd by auto
qed

lemma distinct_unordered_allPairs:
  "distinct xs \<Longrightarrow> distinct (map unordered (allPairs xs))"
  by (simp add: distinct_map distinct_allPairs unordered_inj)

lemma set_unordered_allPairs:
  assumes "distinct xs"
  shows "set (map unordered (allPairs xs)) = {{a, b} |a b. a \<in> set xs \<and> b \<in> set xs \<and> a \<noteq> b}"
proof (intro set_eqI iffI)
  fix S
  assume "S \<in> set (map unordered (allPairs xs))"
  then obtain a b where ab: "(a, b) \<in> set (allPairs xs)" and S: "S = {a, b}"
    by (auto simp: unordered_def)
  from ab have "a \<in> set xs \<and> b \<in> set xs" by (rule allPairs_members)
  moreover from assms ab have "a \<noteq> b" by (simp add: allPairs_irrefl)
  ultimately show "S \<in> {{a, b} |a b. a \<in> set xs \<and> b \<in> set xs \<and> a \<noteq> b}"
    using S by blast
next
  fix S
  assume "S \<in> {{a, b} |a b. a \<in> set xs \<and> b \<in> set xs \<and> a \<noteq> b}"
  then obtain a b where ab: "a \<in> set xs" "b \<in> set xs" "a \<noteq> b" and S: "S = {a, b}"
    by blast
  from ab have "(a, b) \<in> set (allPairs xs) \<or> (b, a) \<in> set (allPairs xs)"
    by (rule allPairs_covers)
  then show "S \<in> set (map unordered (allPairs xs))"
  proof
    assume "(a, b) \<in> set (allPairs xs)"
    then have "unordered (a, b) \<in> set (map unordered (allPairs xs))" by simp
    then show ?thesis by (simp add: S unordered_def)
  next
    assume "(b, a) \<in> set (allPairs xs)"
    then have "unordered (b, a) \<in> set (map unordered (allPairs xs))" by simp
    then show ?thesis by (simp add: S unordered_def insert_commute)
  qed
qed

lemma set_bothWays: "set (bothWays ps) = set ps \<union> (\<lambda>p. (snd p, fst p)) ` set ps"
  by (induction ps) (auto simp: bothWays_def)

lemma bothWays_Cons: "bothWays (p # ps) = p # (snd p, fst p) # bothWays ps"
  by (simp add: bothWays_def)

lemma length_bothWays: "length (bothWays ps) = 2 * length ps"
  by (induction ps) (simp_all add: bothWays_Cons, simp add: bothWays_def)

lemma distinct_bothWays:
  "distinct ps \<Longrightarrow> \<forall>p \<in> set ps. fst p \<noteq> snd p \<and> (snd p, fst p) \<notin> set ps \<Longrightarrow>
   distinct (bothWays ps)"
proof (induction ps)
  case Nil
  show ?case by (simp add: bothWays_def)
next
  case (Cons p ps)
  have ih: "distinct (bothWays ps)"
    using Cons by auto
  have 1: "p \<noteq> (snd p, fst p)"
    using Cons.prems(2) by (cases p) auto
  have 2: "p \<notin> set (bothWays ps)"
    using Cons.prems by (cases p) (auto simp: set_bothWays)
  have 3: "(snd p, fst p) \<notin> set (bothWays ps)"
    using Cons.prems by (cases p) (auto simp: set_bothWays)
  from ih 1 2 3 show ?case by (simp add: bothWays_Cons)
qed

lemma set_bothWays_allPairs:
  assumes "distinct xs"
  shows "set (bothWays (allPairs xs)) = {(a, b). a \<in> set xs \<and> b \<in> set xs \<and> a \<noteq> b}"
proof (intro set_eqI iffI)
  fix p
  assume "p \<in> set (bothWays (allPairs xs))"
  then have "p \<in> set (allPairs xs) \<or> (snd p, fst p) \<in> set (allPairs xs)"
    by (auto simp: set_bothWays)
  then show "p \<in> {(a, b). a \<in> set xs \<and> b \<in> set xs \<and> a \<noteq> b}"
    using allPairs_members [of "fst p" "snd p" xs] allPairs_members [of "snd p" "fst p" xs]
      allPairs_irrefl [OF assms, of "fst p" "snd p"] allPairs_irrefl [OF assms, of "snd p" "fst p"]
    by (cases p) auto
next
  fix p
  assume "p \<in> {(a, b). a \<in> set xs \<and> b \<in> set xs \<and> a \<noteq> b}"
  then have "fst p \<in> set xs" "snd p \<in> set xs" "fst p \<noteq> snd p"
    by (cases p; simp)+
  then have "(fst p, snd p) \<in> set (allPairs xs) \<or> (snd p, fst p) \<in> set (allPairs xs)"
    by (rule allPairs_covers)
  then show "p \<in> set (bothWays (allPairs xs))"
    by (cases p) (force simp: set_bothWays)
qed

lemma distinct_bothWays_allPairs:
  assumes "distinct xs"
  shows "distinct (bothWays (allPairs xs))"
proof (rule distinct_bothWays)
  show "distinct (allPairs xs)" using assms by (rule distinct_allPairs)
  show "\<forall>p \<in> set (allPairs xs). fst p \<noteq> snd p \<and> (snd p, fst p) \<notin> set (allPairs xs)"
    using allPairs_irrefl [OF assms] by auto
qed

lemma pairDocs_fields:
  "m \<in> set (pairDocs pm fmt g a b) \<Longrightarrow>
   groupName m = name g \<and> status m = js ''pending'' \<and> homeSets m = None \<and> awaySets m = None
   \<and> (sides m = (a, b) \<or> sides m = (b, a))"
  by (auto simp: pairDocs_def matchBase_def sides_def Let_def split: if_splits)

lemma groupFixtures_fields:
  assumes "distinct (participantIds g)" and "m \<in> set (groupFixtures pm fmt g)"
  shows "homeParticipantId m \<noteq> awayParticipantId m \<and> groupName m = name g
         \<and> status m = js ''pending'' \<and> homeSets m = None \<and> awaySets m = None"
proof -
  from assms(2) obtain a b where ab: "(a, b) \<in> set (allPairs (participantIds g))"
    and m: "m \<in> set (pairDocs pm fmt g a b)"
    by (auto simp: groupFixtures_allPairs)
  from assms(1) ab have "a \<noteq> b" by (simp add: allPairs_irrefl)
  with pairDocs_fields [OF m] show ?thesis by (auto simp: sides_def)
qed


text \<open>The fixtures generated for one group, in a given format.\<close>

lemma groupFixtures_round_robin:
  assumes "distinct (participantIds g)"
  shows
    "(\<forall>m \<in> set (groupFixtures pm fmt g).
        homeParticipantId m \<noteq> awayParticipantId m \<and> groupName m = name g
        \<and> status m = js ''pending'' \<and> homeSets m = None \<and> awaySets m = None)
     \<and> (fmt \<noteq> js ''home_and_away'' \<longrightarrow>
          map sides (groupFixtures pm fmt g) = allPairs (participantIds g)
          \<and> length (groupFixtures pm fmt g)
              = length (participantIds g) * (length (participantIds g) - 1) div 2
          \<and> distinct (map unordered (map sides (groupFixtures pm fmt g)))
          \<and> set (map unordered (map sides (groupFixtures pm fmt g)))
              = {{a, b} |a b. a \<in> set (participantIds g) \<and> b \<in> set (participantIds g)
                              \<and> a \<noteq> b})
     \<and> (fmt = js ''home_and_away'' \<longrightarrow>
          map sides (groupFixtures pm fmt g) = bothWays (allPairs (participantIds g))
          \<and> length (groupFixtures pm fmt g)
              = length (participantIds g) * (length (participantIds g) - 1)
          \<and> distinct (map sides (groupFixtures pm fmt g))
          \<and> set (map sides (groupFixtures pm fmt g))
              = {(a, b). a \<in> set (participantIds g) \<and> b \<in> set (participantIds g)
                         \<and> a \<noteq> b})"
proof (intro conjI impI ballI)
  fix m
  assume "m \<in> set (groupFixtures pm fmt g)"
  with assms have f: "homeParticipantId m \<noteq> awayParticipantId m \<and> groupName m = name g
         \<and> status m = js ''pending'' \<and> homeSets m = None \<and> awaySets m = None"
    by (rule groupFixtures_fields)
  from f show "homeParticipantId m \<noteq> awayParticipantId m" by simp
  from f show "groupName m = name g" by simp
  from f show "status m = js ''pending''" by simp
  from f show "homeSets m = None" by simp
  from f show "awaySets m = None" by simp
next
  assume single: "fmt \<noteq> js ''home_and_away''"
  then show s: "map sides (groupFixtures pm fmt g) = allPairs (participantIds g)"
    by (simp add: sides_groupFixtures)
  have "length (map sides (groupFixtures pm fmt g)) = length (allPairs (participantIds g))"
    by (simp only: s)
  then show "length (groupFixtures pm fmt g)
              = length (participantIds g) * (length (participantIds g) - 1) div 2"
    by (simp add: length_allPairs)
  show "distinct (map unordered (map sides (groupFixtures pm fmt g)))"
    unfolding s using assms by (rule distinct_unordered_allPairs)
  show "set (map unordered (map sides (groupFixtures pm fmt g)))
              = {{a, b} |a b. a \<in> set (participantIds g) \<and> b \<in> set (participantIds g)
                              \<and> a \<noteq> b}"
    unfolding s using assms by (rule set_unordered_allPairs)
next
  assume "fmt = js ''home_and_away''"
  then show s: "map sides (groupFixtures pm fmt g) = bothWays (allPairs (participantIds g))"
    by (simp add: sides_groupFixtures)
  have "length (map sides (groupFixtures pm fmt g))
        = length (bothWays (allPairs (participantIds g)))"
    by (simp only: s)
  then show "length (groupFixtures pm fmt g)
              = length (participantIds g) * (length (participantIds g) - 1)"
    by (simp add: length_bothWays length_allPairs_twice)
  show "distinct (map sides (groupFixtures pm fmt g))"
    unfolding s using assms by (rule distinct_bothWays_allPairs)
  show "set (map sides (groupFixtures pm fmt g))
              = {(a, b). a \<in> set (participantIds g) \<and> b \<in> set (participantIds g)
                         \<and> a \<noteq> b}"
    unfolding s using assms by (rule set_bothWays_allPairs)
qed

lemma groupFixtures_groupName:
  "m \<in> set (groupFixtures pm fmt g) \<Longrightarrow> groupName m = name g"
  by (auto simp: groupFixtures_allPairs dest: pairDocs_fields)

lemma filter_other_groups:
  "\<forall>h \<in> set gs. name h \<noteq> n \<Longrightarrow>
   filter (\<lambda>m. groupName m = n) (concat (map (groupFixtures pm fmt) gs)) = []"
  by (induction gs) (auto simp: filter_empty_conv dest: groupFixtures_groupName)

lemma filter_own_group:
  "filter (\<lambda>m. groupName m = name g) (groupFixtures pm fmt g) = groupFixtures pm fmt g"
  by (simp add: filter_id_conv groupFixtures_groupName)

lemma filter_concat_groups:
  assumes "g \<in> set gs" and "distinct (map name gs)"
  shows "filter (\<lambda>m. groupName m = name g) (concat (map (groupFixtures pm fmt) gs))
         = groupFixtures pm fmt g"
  using assms
proof (induction gs)
  case Nil
  then show ?case by simp
next
  case (Cons h t)
  show ?case
  proof (cases "h = g")
    case True
    from Cons.prems(2) have "\<forall>k \<in> set t. name k \<noteq> name h" by (auto simp: image_iff)
    with True show ?thesis by (simp add: filter_own_group filter_other_groups)
  next
    case False
    with Cons.prems have g: "g \<in> set t" and d: "distinct (map name t)" by simp_all
    from Cons.prems(2) g have "name h \<noteq> name g" by (auto simp: image_iff)
    then have "filter (\<lambda>m. groupName m = name g) (groupFixtures pm fmt h) = []"
      by (auto simp: filter_empty_conv dest: groupFixtures_groupName)
    with Cons.IH [OF g d] show ?thesis by simp
  qed
qed

lemma groupBatch_groupFixtures:
  assumes "g \<in> set (groups c)" and "distinct (map name (groups c))"
  shows "groupBatch pm c g = groupFixtures pm (matchFormat (groupStage c)) g"
  unfolding groupBatch_def handleGenerateMatches_def
  using assms by (rule filter_concat_groups)

text \<open>
  C3. Take a championship whose groups have distinct names, and one of its groups whose
  member ids are distinct. The documents that \<^verbatim>\<open>handleGenerateMatches\<close> commits under
  the group's name are all pending, unscored and between two different members. When
  the championship's format is not \<^verbatim>\<open>home_and_away\<close> they are, in order, the pairs
  \<open>(p_i, p_j)\<close> with \<open>i < j\<close>: \<open>n * (n - 1) div 2\<close> of them, no unordered pair twice,
  every unordered pair of different members once. In \<^verbatim>\<open>home_and_away\<close> each such
  fixture is followed at once by its mirror: \<open>n * (n - 1)\<close> fixtures, every ordered
  pair of different members exactly once.
\<close>

theorem round_robin_fixtures:
  assumes "g \<in> set (groups c)" and "distinct (map name (groups c))"
      and "distinct (participantIds g)"
  shows
    "(\<forall>m \<in> set (groupBatch pm c g).
        homeParticipantId m \<noteq> awayParticipantId m \<and> groupName m = name g
        \<and> status m = js ''pending'' \<and> homeSets m = None \<and> awaySets m = None)
     \<and> (matchFormat (groupStage c) \<noteq> js ''home_and_away'' \<longrightarrow>
          map sides (groupBatch pm c g) = allPairs (participantIds g)
          \<and> length (groupBatch pm c g)
              = length (participantIds g) * (length (participantIds g) - 1) div 2
          \<and> distinct (map unordered (map sides (groupBatch pm c g)))
          \<and> set (map unordered (map sides (groupBatch pm c g)))
              = {{a, b} |a b. a \<in> set (participantIds g) \<and> b \<in> set (participantIds g)
                              \<and> a \<noteq> b})
     \<and> (matchFormat (groupStage c) = js ''home_and_away'' \<longrightarrow>
          map sides (groupBatch pm c g) = bothWays (allPairs (participantIds g))
          \<and> length (groupBatch pm c g)
              = length (participantIds g) * (length (participantIds g) - 1)
          \<and> distinct (map sides (groupBatch pm c g))
          \<and> set (map sides (groupBatch pm c g))
              = {(a, b). a \<in> set (participantIds g) \<and> b \<in> set (participantIds g)
                         \<and> a \<noteq> b})"
  unfolding groupBatch_groupFixtures [OF assms(1,2)]
  using assms(3) by (rule groupFixtures_round_robin)


theorem round_robin_fixtures_witness:
  "exampleGroup \<in> set (groups exampleChampionship)
   \<and> distinct (map name (groups exampleChampionship))
   \<and> distinct (participantIds exampleGroup)
   \<and> matchFormat (groupStage exampleChampionship) \<noteq> js ''home_and_away''
   \<and> map sides (handleGenerateMatches exampleParticipantMap exampleChampionship)
       = [(js ''A'', js ''B''), (js ''A'', js ''C''), (js ''B'', js ''C'')]
   \<and> map sides (groupBatch exampleParticipantMap exampleChampionship exampleGroup)
       = [(js ''A'', js ''B''), (js ''A'', js ''C''), (js ''B'', js ''C'')]
   \<and> exampleGroup\<lparr>name := js ''Grupo B''\<rparr> \<in> set (groups exampleTwoGroups)
   \<and> distinct (map name (groups exampleTwoGroups))
   \<and> distinct (participantIds (exampleGroup\<lparr>name := js ''Grupo B''\<rparr>))
   \<and> matchFormat (groupStage exampleTwoGroups) = js ''home_and_away''
   \<and> map sides (handleGenerateMatches exampleParticipantMap exampleTwoGroups)
       = [(js ''D'', js ''E''), (js ''E'', js ''D''),
          (js ''A'', js ''B''), (js ''B'', js ''A''), (js ''A'', js ''C''),
          (js ''C'', js ''A''), (js ''B'', js ''C''), (js ''C'', js ''B'')]
   \<and> map sides (groupBatch exampleParticipantMap exampleTwoGroups
                    (exampleGroup\<lparr>name := js ''Grupo B''\<rparr>))
       = [(js ''A'', js ''B''), (js ''B'', js ''A''), (js ''A'', js ''C''),
          (js ''C'', js ''A''), (js ''B'', js ''C''), (js ''C'', js ''B'')]
   \<and> list_all (\<lambda>m. status m = js ''pending'' \<and> homeSets m = None \<and> awaySets m = None)
        (handleGenerateMatches exampleParticipantMap exampleTwoGroups)"
proof -
  note ev = exampleGroup_def exampleChampionship_def exampleTwoGroups_def groupBatch_def
      handleGenerateMatches_def groupFixtures_def pairMatches_def matchBase_def sides_def
      upt_rec Let_def
  have h1: "exampleGroup \<in> set (groups exampleChampionship)"
    and h2: "distinct (map name (groups exampleChampionship))"
    and h3: "distinct (participantIds exampleGroup)"
    and h4: "matchFormat (groupStage exampleChampionship) \<noteq> js ''home_and_away''"
    by (simp_all add: ev)
  have k1: "exampleGroup\<lparr>name := js ''Grupo B''\<rparr> \<in> set (groups exampleTwoGroups)"
    and k2: "distinct (map name (groups exampleTwoGroups))"
    and k3: "distinct (participantIds (exampleGroup\<lparr>name := js ''Grupo B''\<rparr>))"
    and k4: "matchFormat (groupStage exampleTwoGroups) = js ''home_and_away''"
    by (simp_all add: ev)
  have e1: "map sides (handleGenerateMatches exampleParticipantMap exampleChampionship)
       = [(js ''A'', js ''B''), (js ''A'', js ''C''), (js ''B'', js ''C'')]"
    by (simp add: ev)
  have e2: "map sides (handleGenerateMatches exampleParticipantMap exampleTwoGroups)
       = [(js ''D'', js ''E''), (js ''E'', js ''D''),
          (js ''A'', js ''B''), (js ''B'', js ''A''), (js ''A'', js ''C''),
          (js ''C'', js ''A''), (js ''B'', js ''C''), (js ''C'', js ''B'')]"
    by (simp add: ev)
  have e3: "list_all (\<lambda>m. status m = js ''pending'' \<and> homeSets m = None \<and> awaySets m = None)
        (handleGenerateMatches exampleParticipantMap exampleTwoGroups)"
    by (simp add: ev)
  from round_robin_fixtures [OF h1 h2 h3, of exampleParticipantMap] h4
  have f1: "map sides (groupBatch exampleParticipantMap exampleChampionship exampleGroup)
       = [(js ''A'', js ''B''), (js ''A'', js ''C''), (js ''B'', js ''C'')]"
    by (simp add: exampleGroup_def)
  from round_robin_fixtures [OF k1 k2 k3, of exampleParticipantMap] k4
  have f2: "map sides (groupBatch exampleParticipantMap exampleTwoGroups
                    (exampleGroup\<lparr>name := js ''Grupo B''\<rparr>))
       = [(js ''A'', js ''B''), (js ''B'', js ''A''), (js ''A'', js ''C''),
          (js ''C'', js ''A''), (js ''B'', js ''C''), (js ''C'', js ''B'')]"
    by (simp add: exampleGroup_def bothWays_def)
  from h1 h2 h3 h4 k1 k2 k3 k4 e1 e2 e3 f1 f2 show ?thesis by blast
qed

section \<open>Manual fixtures\<close>

text \<open>
  The guard of \<^verbatim>\<open>handleSaveManualMatch\<close> never consults the participants: a nonempty
  id that names nobody is accepted.
\<close>

theorem manual_match_unknown_id_counterexample:
  "\<not> (fst (handleSaveManualMatch exampleParticipantMap (js ''a'') (js ''zz'') [])
          = Some InvalidParticipants
        \<longleftrightarrow> (js ''a'' = js ''zz'' \<or> exampleParticipantMap (js ''a'') = None
             \<or> exampleParticipantMap (js ''zz'') = None))"
  by (simp add: handleSaveManualMatch_def exampleParticipantMap_def js_def)

text \<open>
  C6, as the code has it. A manual fixture is refused with \<open>InvalidParticipants\<close> exactly
  when one of the two ids is the empty string (nothing selected) or the ids are equal;
  a refused call adds nothing. Every other call, whether or not the ids name registered
  participants, adds one pending fixture of the group name \<^verbatim>\<open>Avulso\<close> with unset
  scores. When both ids are options of the form (empty, or the id of a registered
  participant), the refusal is exactly: same id, or an id that names no participant.
\<close>

theorem manual_match_guard:
  "(fst (handleSaveManualMatch pm h a ms) = Some InvalidParticipants
      \<longleftrightarrow> h = [] \<or> a = [] \<or> h = a)
   \<and> (h = [] \<or> a = [] \<or> h = a \<longrightarrow> snd (handleSaveManualMatch pm h a ms) = ms)
   \<and> (h \<noteq> [] \<and> a \<noteq> [] \<and> h \<noteq> a \<longrightarrow>
        fst (handleSaveManualMatch pm h a ms) = None
        \<and> snd (handleSaveManualMatch pm h a ms) =
            ms @ [\<lparr>stage = js ''group'', groupName = js ''Avulso'',
                   homeParticipantId = h, awayParticipantId = a,
                   homeParticipantName = displayName pm h,
                   awayParticipantName = displayName pm a,
                   homeSets = None, awaySets = None, status = js ''pending''\<rparr>])
   \<and> (pm [] = None \<and> h \<in> insert [] (dom pm) \<and> a \<in> insert [] (dom pm) \<longrightarrow>
        (fst (handleSaveManualMatch pm h a ms) = Some InvalidParticipants
           \<longleftrightarrow> h = a \<or> pm h = None \<or> pm a = None))"
  by (auto simp: handleSaveManualMatch_def)

theorem manual_match_guard_witness:
  "fst (handleSaveManualMatch exampleParticipantMap (js ''a'') (js ''zz'') []) = None
   \<and> snd (handleSaveManualMatch exampleParticipantMap (js ''a'') (js ''zz'') []) =
        [\<lparr>stage = js ''group'', groupName = js ''Avulso'',
          homeParticipantId = js ''a'', awayParticipantId = js ''zz'',
          homeParticipantName = js ''Ana'', awayParticipantName = js ''?'',
          homeSets = None, awaySets = None, status = js ''pending''\<rparr>]
   \<and> handleSaveManualMatch exampleParticipantMap (js ''a'') (js ''a'') [] =
        (Some InvalidParticipants, [])
   \<and> handleSaveManualMatch exampleParticipantMap (js ''a'') [] [] =
        (Some InvalidParticipants, [])
   \<and> exampleParticipantMap [] = None
   \<and> js ''a'' \<in> insert [] (dom exampleParticipantMap)
   \<and> js ''b'' \<in> insert [] (dom exampleParticipantMap)
   \<and> fst (handleSaveManualMatch exampleParticipantMap (js ''a'') (js ''b'') []) = None"
  using manual_match_guard [of exampleParticipantMap "js ''a''" "js ''zz''" "[]"]
        manual_match_guard [of exampleParticipantMap "js ''a''" "js ''a''" "[]"]
        manual_match_guard [of exampleParticipantMap "js ''a''" "[]" "[]"]
        manual_match_guard [of exampleParticipantMap "js ''a''" "js ''b''" "[]"]
  by (simp add: handleSaveManualMatch_def exampleParticipantMap_def displayName_def js_def)

end
